theory Spec2Isabelle
  imports Complex_Main "HOL-Library.AList"
begin

section \<open>Python values, errors and dictionaries\<close>

text \<open>
  The commentary engine is Python. Its exceptions are values of \<open>pyerr\<close>; a function
  that can raise returns \<open>pyerr + 'a\<close>, with \<open>Inl\<close> for the raised exception.
  The model follows the type annotations of the source (\<open>ChampionState\<close> declares
  \<open>team: str\<close>, \<open>level: int\<close>, \<open>is_alive: bool\<close>, \<open>health: float\<close>,
  \<open>position: Dict[str, float]\<close>, \<open>recent_kills: List[float]\<close>): a field of a snapshot
  is either absent (\<open>None\<close>) or holds a value of the annotated type. Python floats are
  modelled as real numbers; rounding, overflow, infinities and NaN are not modelled.
\<close>

datatype pyerr = KeyError string | TypeError | ValueError | IndexError

datatype pyval = PNone | PStr string | PInt int | PFloat real

text \<open>\<open>d.get(key, default)\<close> on a field that may be absent.\<close>

definition dict_get :: "'a option \<Rightarrow> 'a \<Rightarrow> 'a" where
  "dict_get field dflt = (case field of None \<Rightarrow> dflt | Some v \<Rightarrow> v)"

text \<open>\<open>d[key]\<close>: raises \<open>KeyError\<close> on an absent key.\<close>

definition subscript :: "(string \<times> 'a) list \<Rightarrow> string \<Rightarrow> pyerr + 'a" where
  "subscript d k = (case map_of d k of None \<Rightarrow> Inl (KeyError k) | Some v \<Rightarrow> Inr v)"

text \<open>Sequencing of computations that may raise: the first exception propagates.\<close>

definition ebind :: "pyerr + 'a \<Rightarrow> ('a \<Rightarrow> pyerr + 'b) \<Rightarrow> pyerr + 'b" where
  "ebind m f = (case m of Inl e \<Rightarrow> Inl e | Inr v \<Rightarrow> f v)"

section \<open>event_detector.py: the data model\<close>

datatype EventType =
    CHAMPION_KILL | FIRST_BLOOD | DOUBLE_KILL | TRIPLE_KILL | MULTI_KILL | SHUTDOWN | ACE
  | TOWER_DESTROYED | NEXUS_LOW | NEXUS_DESTROYED
  | CLOSE_FIGHT | TEAMFIGHT_START | TEAMFIGHT_END
  | MINION_WAVE | PUSH_ADVANTAGE
  | LEVEL_UP | ULTIMATE_READY | BIG_PLAY
  | MATCH_START | MATCH_END

text \<open>
  \<open>GameEvent\<close>: the payload \<open>data\<close> is a Python dict literal, kept as an association
  list in the order the source writes its keys.
\<close>

record GameEvent =
  event_type :: EventType
  timestamp :: real
  tick :: int
  data :: "(string \<times> pyval) list"

text \<open>\<open>ChampionState\<close>; the field \<open>id\<close> of the source is \<open>champ_id\<close> here.\<close>

record ChampionState =
  champ_id :: string
  champion :: string
  team :: string
  health :: real
  max_health :: real
  level :: int
  is_alive :: bool
  position :: "(string \<times> real) list"
  kill_streak :: int
  recent_kills :: "real list"

text \<open>
  One champion record of a snapshot (\<open>champ_data\<close>, a dict read with \<open>.get\<close>): every
  key may be absent. The field \<open>d_k\<close> is the value under the key \<open>k\<close>.
\<close>

record ChampData =
  d_id :: "string option"
  d_champion :: "string option"
  d_team :: "string option"
  d_health :: "real option"
  d_max_health :: "real option"
  d_level :: "int option"
  d_is_alive :: "bool option"
  d_position :: "(string \<times> real) list option"

text \<open>
  A snapshot (\<open>current_state\<close>), again a dict read with \<open>.get\<close>; \<open>snap_tick\<close> is the
  key \<open>tick\<close>.
\<close>

record Snapshot =
  snap_tick :: "int option"
  match_time :: "real option"
  status :: "string option"
  champions :: "ChampData list option"
  blue_nexus_health :: "real option"
  red_nexus_health :: "real option"
  winner :: "string option"

text \<open>
  The detector's fields. \<open>champion_states\<close> is a dict, whose iteration order is the
  insertion order of its keys: an association list, updated with \<open>AList.update\<close>
  (replace in place, or append a new key).
\<close>

record EventDetector =
  previous_state :: "Snapshot option"
  champion_states :: "(string \<times> ChampionState) list"
  first_blood_occurred :: bool
  team_alive_count :: "(string \<times> int) list"
  towers_destroyed :: "(string \<times> int) list"
  match_started :: bool

definition new_detector :: EventDetector where
  "new_detector =
     \<lparr>previous_state = None, champion_states = [], first_blood_occurred = False,
      team_alive_count = [(''blue'', 0), (''red'', 0)],
      towers_destroyed = [(''blue'', 0), (''red'', 0)],
      match_started = False\<rparr>"

section \<open>EventDetector._find_likely_killer\<close>

text \<open>
  The distance of the source, \<open>((cx - vx) ** 2 + (cy - vy) ** 2) ** 0.5\<close>. The four
  subscripts are evaluated left to right and each raises \<open>KeyError\<close> on a position
  without that coordinate.
\<close>

definition distance :: "ChampionState \<Rightarrow> ChampionState \<Rightarrow> pyerr + real" where
  "distance champ victim =
     ebind (subscript (position champ) ''x'') (\<lambda>cx.
     ebind (subscript (position victim) ''x'') (\<lambda>vx.
     ebind (subscript (position champ) ''y'') (\<lambda>cy.
     ebind (subscript (position victim) ''y'') (\<lambda>vy.
     Inr (sqrt ((cx - vx)\<^sup>2 + (cy - vy)\<^sup>2))))))"

text \<open>\<open>dist < closest_dist\<close>, where \<open>closest_dist\<close> starts as \<open>float("inf")\<close> (\<open>None\<close>).\<close>

definition closer :: "real \<Rightarrow> real option \<Rightarrow> bool" where
  "closer d closest_dist = (case closest_dist of None \<Rightarrow> True | Some c \<Rightarrow> d < c)"

fun killer_loop ::
  "string \<Rightarrow> ChampionState \<Rightarrow> ChampionState list \<Rightarrow> ChampionState option \<Rightarrow> real option
    \<Rightarrow> pyerr + ChampionState option" where
  "killer_loop enemy_team victim [] closest closest_dist = Inr closest"
| "killer_loop enemy_team victim (champ # rest) closest closest_dist =
     (if team champ \<noteq> enemy_team \<or> \<not> is_alive champ
      then killer_loop enemy_team victim rest closest closest_dist
      else (case distance champ victim of
              Inl e \<Rightarrow> Inl e
            | Inr d \<Rightarrow>
                if closer d closest_dist
                then killer_loop enemy_team victim rest (Some champ) (Some d)
                else killer_loop enemy_team victim rest closest closest_dist))"

definition enemy_of :: "string \<Rightarrow> string" where
  "enemy_of tm = (if tm = ''blue'' then ''red'' else ''blue'')"

definition find_likely_killer :: "EventDetector \<Rightarrow> ChampionState \<Rightarrow> pyerr + ChampionState option" where
  "find_likely_killer s victim =
     killer_loop (enemy_of (team victim)) victim (map snd (champion_states s)) None None"

section \<open>EventDetector._on_champion_death\<close>

definition kill_data :: "ChampionState \<Rightarrow> ChampionState option \<Rightarrow> (string \<times> pyval) list" where
  "kill_data victim killer =
     [(''victim_id'', PStr (champ_id victim)),
      (''victim'', PStr (champion victim)),
      (''victim_team'', PStr (team victim)),
      (''killer_id'', case killer of None \<Rightarrow> PNone | Some k \<Rightarrow> PStr (champ_id k)),
      (''killer'', case killer of None \<Rightarrow> PStr ''Unknown'' | Some k \<Rightarrow> PStr (champion k)),
      (''killer_team'', case killer of None \<Rightarrow> PNone | Some k \<Rightarrow> PStr (team k))]"

text \<open>The multi-kill classification by the size of the killer's pruned window.\<close>

definition multikill_events :: "ChampionState \<Rightarrow> int \<Rightarrow> int \<Rightarrow> real \<Rightarrow> GameEvent list" where
  "multikill_events killer recent_count tk ts =
     (if recent_count = 2
      then [\<lparr>event_type = DOUBLE_KILL, timestamp = ts, tick = tk,
             data = [(''champion'', PStr (champion killer)), (''team'', PStr (team killer))]\<rparr>]
      else if recent_count = 3
      then [\<lparr>event_type = TRIPLE_KILL, timestamp = ts, tick = tk,
             data = [(''champion'', PStr (champion killer)), (''team'', PStr (team killer))]\<rparr>]
      else if recent_count > 3
      then [\<lparr>event_type = MULTI_KILL, timestamp = ts, tick = tk,
             data = [(''champion'', PStr (champion killer)), (''team'', PStr (team killer)),
                     (''count'', PInt recent_count)]\<rparr>]
      else [])"

definition shutdown_events :: "ChampionState \<Rightarrow> ChampionState \<Rightarrow> int \<Rightarrow> real \<Rightarrow> GameEvent list" where
  "shutdown_events victim killer tk ts =
     (if kill_streak victim \<ge> 3
      then [\<lparr>event_type = SHUTDOWN, timestamp = ts, tick = tk,
             data = [(''victim'', PStr (champion victim)), (''killer'', PStr (champion killer)),
                     (''streak'', PInt (kill_streak victim))]\<rparr>]
      else [])"

text \<open>
  The killer is an object of \<open>champion_states\<close>, stored under its own id; the source
  mutates it in place (\<open>kill_streak += 1\<close>, append the timestamp, prune the window to
  the entries less than 10 seconds old). The victim is another object: the killer's team
  is the enemy team, which differs from the victim's.
\<close>

definition on_champion_death ::
  "EventDetector \<Rightarrow> ChampionState \<Rightarrow> int \<Rightarrow> real \<Rightarrow> pyerr + (GameEvent list \<times> EventDetector)" where
  "on_champion_death s victim tk ts =
     (case find_likely_killer s victim of
        Inl e \<Rightarrow> Inl e
      | Inr killer \<Rightarrow>
          (let kill_event =
                 \<lparr>event_type = (if \<not> first_blood_occurred s then FIRST_BLOOD else CHAMPION_KILL),
                  timestamp = ts, tick = tk, data = kill_data victim killer\<rparr>;
               s1 = (if \<not> first_blood_occurred s then s\<lparr>first_blood_occurred := True\<rparr> else s)
           in case killer of
                None \<Rightarrow> Inr ([kill_event], s1)
              | Some k \<Rightarrow>
                  (let window = filter (\<lambda>t. ts - t < 10) (recent_kills k @ [ts]);
                       k' = k\<lparr>kill_streak := kill_streak k + 1, recent_kills := window\<rparr>;
                       s2 = s1\<lparr>champion_states := AList.update (champ_id k) k' (champion_states s1)\<rparr>
                   in Inr ([kill_event] @ multikill_events k' (int (length window)) tk ts
                             @ shutdown_events victim k' tk ts, s2))))"

section \<open>EventDetector._process_champion\<close>

definition new_champion_state :: "string \<Rightarrow> ChampData \<Rightarrow> ChampionState" where
  "new_champion_state cid cd =
     \<lparr>champ_id = cid,
      champion = dict_get (d_champion cd) ''Unknown'',
      team = dict_get (d_team cd) ''blue'',
      health = dict_get (d_health cd) 0,
      max_health = dict_get (d_max_health cd) 600,
      level = dict_get (d_level cd) 1,
      is_alive = dict_get (d_is_alive cd) True,
      position = dict_get (d_position cd) [(''x'', 0), (''y'', 0)],
      kill_streak = 0,
      recent_kills = []\<rparr>"

definition level_events :: "string \<Rightarrow> ChampionState \<Rightarrow> int \<Rightarrow> int \<Rightarrow> real \<Rightarrow> GameEvent list" where
  "level_events cid prev_state lvl tk ts =
     (if lvl > level prev_state
      then \<lparr>event_type = LEVEL_UP, timestamp = ts, tick = tk,
            data = [(''champion_id'', PStr cid), (''champion'', PStr (champion prev_state)),
                    (''team'', PStr (team prev_state)), (''new_level'', PInt lvl)]\<rparr>
           # (if lvl = 6
              then [\<lparr>event_type = ULTIMATE_READY, timestamp = ts, tick = tk,
                     data = [(''champion_id'', PStr cid), (''champion'', PStr (champion prev_state)),
                             (''team'', PStr (team prev_state))]\<rparr>]
              else [])
      else [])"

text \<open>Mutation of the tracked object stored under \<open>cid\<close>.\<close>

definition mutate :: "string \<Rightarrow> (ChampionState \<Rightarrow> ChampionState) \<Rightarrow> EventDetector \<Rightarrow> EventDetector" where
  "mutate cid f s = s\<lparr>champion_states := AList.map_entry cid f (champion_states s)\<rparr>"

definition process_champion ::
  "EventDetector \<Rightarrow> ChampData \<Rightarrow> int \<Rightarrow> real \<Rightarrow> pyerr + (GameEvent list \<times> EventDetector)" where
  "process_champion s cd tk ts =
     (let cid = dict_get (d_id cd) '''' in
      case map_of (champion_states s) cid of
        None \<Rightarrow>
          Inr ([], s\<lparr>champion_states :=
                      AList.update cid (new_champion_state cid cd) (champion_states s)\<rparr>)
      | Some prev_state \<Rightarrow>
          (let alive = dict_get (d_is_alive cd) True;
               lvl = dict_get (d_level cd) 1
           in case (if is_alive prev_state \<and> \<not> alive
                    then on_champion_death s prev_state tk ts else Inr ([], s)) of
                Inl e \<Rightarrow> Inl e
              | Inr (death_events, s1) \<Rightarrow>
                  (let s2 = (if \<not> is_alive prev_state \<and> alive
                             then mutate cid (\<lambda>c. c\<lparr>kill_streak := 0\<rparr>) s1 else s1);
                       s3 = mutate cid
                              (\<lambda>c. c\<lparr>health := dict_get (d_health cd) 0,
                                      max_health := dict_get (d_max_health cd) 600,
                                      level := lvl,
                                      is_alive := alive,
                                      position := dict_get (d_position cd) [(''x'', 0), (''y'', 0)]\<rparr>)
                              s2
                   in Inr (death_events @ level_events cid prev_state lvl tk ts, s3))))"

text \<open>The loop of \<open>detect\<close> over the champion records, in snapshot order.\<close>

fun process_champions ::
  "EventDetector \<Rightarrow> ChampData list \<Rightarrow> int \<Rightarrow> real \<Rightarrow> pyerr + (GameEvent list \<times> EventDetector)" where
  "process_champions s [] tk ts = Inr ([], s)"
| "process_champions s (cd # rest) tk ts =
     (case process_champion s cd tk ts of
        Inl e \<Rightarrow> Inl e
      | Inr (ev1, s1) \<Rightarrow>
          (case process_champions s1 rest tk ts of
             Inl e \<Rightarrow> Inl e
           | Inr (ev2, s2) \<Rightarrow> Inr (ev1 @ ev2, s2)))"

section \<open>EventDetector._check_ace and _process_structures\<close>

definition alive_count :: "EventDetector \<Rightarrow> string \<Rightarrow> int" where
  "alive_count s tm =
     int (length (filter (\<lambda>c. team c = tm \<and> is_alive c) (map snd (champion_states s))))"

definition ace_event :: "string \<Rightarrow> int \<Rightarrow> real \<Rightarrow> GameEvent" where
  "ace_event tm tk ts =
     \<lparr>event_type = ACE, timestamp = ts, tick = tk,
      data = [(''aced_team'', PStr tm), (''by_team'', PStr (enemy_of tm))]\<rparr>"

fun check_ace_loop :: "string list \<Rightarrow> EventDetector \<Rightarrow> int \<Rightarrow> real \<Rightarrow> GameEvent list \<times> EventDetector" where
  "check_ace_loop [] s tk ts = ([], s)"
| "check_ace_loop (tm # rest) s tk ts =
     (let alive = alive_count s tm;
          prev_alive = dict_get (map_of (team_alive_count s) tm) 0;
          ev = (if prev_alive > 0 \<and> alive = 0 then [ace_event tm tk ts] else []);
          s1 = s\<lparr>team_alive_count := AList.update tm alive (team_alive_count s)\<rparr>;
          r = check_ace_loop rest s1 tk ts
      in (ev @ fst r, snd r))"

definition check_ace :: "EventDetector \<Rightarrow> int \<Rightarrow> real \<Rightarrow> GameEvent list \<times> EventDetector" where
  "check_ace s tk ts = check_ace_loop [''blue'', ''red''] s tk ts"

text \<open>\<open>state.get(key, 5000)\<close> for the computed key \<open>f"{team}_nexus_health"\<close>.\<close>

definition snapshot_key :: "Snapshot \<Rightarrow> string \<Rightarrow> real option" where
  "snapshot_key state key =
     (if key = ''blue_nexus_health'' then blue_nexus_health state
      else if key = ''red_nexus_health'' then red_nexus_health state
      else None)"

definition nexus_low_event :: "string \<Rightarrow> real \<Rightarrow> int \<Rightarrow> real \<Rightarrow> GameEvent" where
  "nexus_low_event tm nexus_health tk ts =
     \<lparr>event_type = NEXUS_LOW, timestamp = ts, tick = tk,
      data = [(''team'', PStr tm), (''health'', PFloat nexus_health)]\<rparr>"

fun structures_loop :: "string list \<Rightarrow> Snapshot \<Rightarrow> int \<Rightarrow> real \<Rightarrow> GameEvent list" where
  "structures_loop [] state tk ts = []"
| "structures_loop (tm # rest) state tk ts =
     (let nexus_health = dict_get (snapshot_key state (tm @ ''_nexus_health'')) 5000
      in (if nexus_health \<le> 1000 \<and> nexus_health > 0
          then [nexus_low_event tm nexus_health tk ts] else [])
         @ structures_loop rest state tk ts)"

definition process_structures :: "Snapshot \<Rightarrow> int \<Rightarrow> real \<Rightarrow> GameEvent list" where
  "process_structures state tk ts = structures_loop [''blue'', ''red''] state tk ts"

section \<open>EventDetector.detect\<close>

definition match_end_event :: "Snapshot \<Rightarrow> int \<Rightarrow> real \<Rightarrow> GameEvent" where
  "match_end_event current_state tk ts =
     \<lparr>event_type = MATCH_END, timestamp = ts, tick = tk,
      data = [(''winner'', case winner current_state of None \<Rightarrow> PNone | Some w \<Rightarrow> PStr w),
              (''duration'', PFloat ts)]\<rparr>"

definition detect :: "EventDetector \<Rightarrow> Snapshot \<Rightarrow> pyerr + (GameEvent list \<times> EventDetector)" where
  "detect s current_state =
     (let tk = dict_get (snap_tick current_state) 0;
          ts = dict_get (match_time current_state) 0;
          starting = (\<not> match_started s \<and> status current_state = Some ''playing'');
          ev0 = (if starting
                 then [\<lparr>event_type = MATCH_START, timestamp = ts, tick = tk, data = []\<rparr>] else []);
          s0 = (if starting then s\<lparr>match_started := True\<rparr> else s)
      in case process_champions s0 (dict_get (champions current_state) []) tk ts of
           Inl e \<Rightarrow> Inl e
         | Inr (ev1, s1) \<Rightarrow>
             (let r = check_ace s1 tk ts;
                  ev3 = process_structures current_state tk ts;
                  ev4 = (if status current_state = Some ''ended''
                         then [match_end_event current_state tk ts] else [])
              in Inr (ev0 @ ev1 @ fst r @ ev3 @ ev4,
                      (snd r)\<lparr>previous_state := Some current_state\<rparr>)))"

text \<open>
  A run of the detector: \<open>detect\<close> called once per snapshot, in order, on the state the
  previous call left. The result holds the events of each call; an exception ends the run.
\<close>

fun detect_run :: "EventDetector \<Rightarrow> Snapshot list \<Rightarrow> pyerr + (GameEvent list list \<times> EventDetector)" where
  "detect_run s [] = Inr ([], s)"
| "detect_run s (snap # rest) =
     (case detect s snap of
        Inl e \<Rightarrow> Inl e
      | Inr (ev, s1) \<Rightarrow>
          (case detect_run s1 rest of
             Inl e \<Rightarrow> Inl e
           | Inr (evs, s2) \<Rightarrow> Inr (ev # evs, s2)))"

section \<open>commentary_generator.py\<close>

definition TEMPLATES :: "(EventType \<times> string list) list" where
  "TEMPLATES =
    [(MATCH_START,
       [''Welcome to the Rift! The match has begun!'',
        ''Let's get ready to rumble! Match is starting!'',
        ''Champions are taking their positions. The battle begins!'']),
     (FIRST_BLOOD,
       [''{killer} draws first blood on {victim}!'',
        ''FIRST BLOOD! {killer} takes down {victim}!'',
        ''{killer} gets the first kill of the game against {victim}!'']),
     (CHAMPION_KILL,
       [''{killer} eliminates {victim}!'',
        ''{victim} has been slain by {killer}.'',
        ''{killer} takes down {victim}!'',
        ''And {victim} goes down to {killer}!'']),
     (DOUBLE_KILL,
       [''DOUBLE KILL for {champion}!'',
        ''{champion} picks up a double kill!'',
        ''Two down! {champion} is on fire!'']),
     (TRIPLE_KILL,
       [''TRIPLE KILL! {champion} is unstoppable!'',
        ''{champion} with the TRIPLE KILL!'',
        ''Three kills for {champion}! What a play!'']),
     (MULTI_KILL,
       [''{champion} IS ON A RAMPAGE! {count} KILLS!'',
        ''LEGENDARY! {champion} with {count} kills!'',
        ''{champion} is absolutely dominating with {count} kills!'']),
     (SHUTDOWN,
       [''{killer} SHUTS DOWN {victim}! End of a {streak} kill streak!'',
        ''The rampage is over! {killer} stops {victim}!'',
        ''{killer} puts an end to {victim}'s killing spree!'']),
     (ACE,
       [''ACE! {by_team} team wipes out {aced_team}!'',
        ''ACED! Not a single {aced_team} champion standing!'',
        ''Total annihilation! {by_team} aces {aced_team}!'']),
     (TOWER_DESTROYED,
       [''{team}'s tower has been destroyed!'',
        ''Tower down for {team}!'',
        ''Another tower falls for {team}!'']),
     (NEXUS_LOW,
       [''{team}'s nexus is critical! Only {health} HP remaining!'',
        ''The {team} nexus is under heavy attack!'',
        ''Things are looking dire for {team}!'']),
     (NEXUS_DESTROYED,
       [''{winner} destroys the nexus! VICTORY!'',
        ''GG! {winner} wins the match!'',
        ''And that's the game! {winner} takes the victory!'']),
     (LEVEL_UP,
       [''{champion} reaches level {new_level}.'',
        ''{champion} levels up to {new_level}!'']),
     (ULTIMATE_READY,
       [''{champion}'s ultimate is now available!'',
        ''Watch out! {champion} has their ultimate ready!'']),
     (MATCH_END,
       [''GG! {winner} wins in {duration:.0f} seconds!'',
        ''What a match! {winner} takes the victory!'',
        ''And it's over! {winner} claims victory!''])]"

text \<open>
  \<open>template.format(**event.data)\<close>. The model covers the format strings whose
  replacement fields are \<open>{name}\<close> or \<open>{name:spec}\<close> and the escapes \<open>{{\<close> and
  \<open>}}\<close>; no template of the table has a conversion, an attribute or index lookup or a
  nested field. \<open>str.format\<close> renders left to right, so the first failing field decides
  the exception. How a value prints is left to two parameters: \<open>py_str v\<close> is \<open>str(v)\<close>
  (used for an empty format spec, never raises) and \<open>py_spec spec v\<close> is
  \<open>format(v, spec)\<close> for a non-empty spec, which may raise.
\<close>

record printer =
  py_str :: "pyval \<Rightarrow> string"
  py_spec :: "string \<Rightarrow> pyval \<Rightarrow> pyerr + string"

definition field_name :: "string \<Rightarrow> string" where
  "field_name f = takeWhile (\<lambda>c. c \<noteq> CHR '':'') f"

definition field_spec :: "string \<Rightarrow> string" where
  "field_spec f = drop 1 (dropWhile (\<lambda>c. c \<noteq> CHR '':'') f)"

text \<open>A field with an empty or numeric name is positional; \<open>format\<close> got no positional argument.\<close>

definition positional :: "string \<Rightarrow> bool" where
  "positional n = list_all (\<lambda>c. c \<in> set ''0123456789'') n"

definition format_field :: "printer \<Rightarrow> (string \<times> pyval) list \<Rightarrow> string \<Rightarrow> pyerr + string" where
  "format_field pr kwargs f =
     (if positional (field_name f) then Inl IndexError
      else case map_of kwargs (field_name f) of
             None \<Rightarrow> Inl (KeyError (field_name f))
           | Some v \<Rightarrow> if field_spec f = [] then Inr (py_str pr v) else py_spec pr (field_spec f) v)"

text \<open>
  The scan of the format string. The second argument is \<open>None\<close> in literal text and
  \<open>Some f\<close> inside a replacement field of which \<open>f\<close> has been read.
\<close>

fun format_scan :: "printer \<Rightarrow> (string \<times> pyval) list \<Rightarrow> string option \<Rightarrow> string \<Rightarrow> pyerr + string" where
  "format_scan pr kwargs None [] = Inr []"
| "format_scan pr kwargs (Some f) [] = Inl ValueError"
| "format_scan pr kwargs (Some f) (c # cs) =
     (if c = CHR ''}''
      then ebind (format_field pr kwargs f) (\<lambda>txt.
           ebind (format_scan pr kwargs None cs) (\<lambda>out. Inr (txt @ out)))
      else format_scan pr kwargs (Some (f @ [c])) cs)"
| "format_scan pr kwargs None [c] =
     (if c = CHR ''{'' \<or> c = CHR ''}'' then Inl ValueError else Inr [c])"
| "format_scan pr kwargs None (c # c' # cs) =
     (if (c = CHR ''{'' \<and> c' = CHR ''{'') \<or> (c = CHR ''}'' \<and> c' = CHR ''}'')
      then ebind (format_scan pr kwargs None cs) (\<lambda>out. Inr (c # out))
      else if c = CHR ''{'' then format_scan pr kwargs (Some []) (c' # cs)
      else if c = CHR ''}'' then Inl ValueError
      else ebind (format_scan pr kwargs None (c' # cs)) (\<lambda>out. Inr (c # out)))"

definition py_format :: "printer \<Rightarrow> string \<Rightarrow> (string \<times> pyval) list \<Rightarrow> pyerr + string" where
  "py_format pr template kwargs = format_scan pr kwargs None template"

text \<open>
  \<open>generate_template\<close>. The draw of \<open>random.choice\<close> is the parameter \<open>r\<close>: the template
  chosen is the one at index \<open>r mod len(templates)\<close>. Only \<open>KeyError\<close> is caught.
\<close>

definition random_choice :: "nat \<Rightarrow> 'a list \<Rightarrow> 'a" where
  "random_choice r xs = xs ! (r mod length xs)"

definition generate_template :: "printer \<Rightarrow> nat \<Rightarrow> GameEvent \<Rightarrow> pyerr + string option" where
  "generate_template pr r event =
     (case map_of TEMPLATES (event_type event) of
        None \<Rightarrow> Inr None
      | Some templates \<Rightarrow>
          if templates = [] then Inr None
          else (let template = random_choice r templates
                in case py_format pr template (data event) of
                     Inl (KeyError k) \<Rightarrow> Inr (Some template)
                   | Inl e \<Rightarrow> Inl e
                   | Inr text \<Rightarrow> Inr (Some text)))"

text \<open>
  The replacement fields of a template, in order: what the template references. Same
  scan as \<open>format_scan\<close>, without the lookups.
\<close>

fun template_fields :: "string option \<Rightarrow> string \<Rightarrow> string list" where
  "template_fields None [] = []"
| "template_fields (Some f) [] = []"
| "template_fields (Some f) (c # cs) =
     (if c = CHR ''}'' then f # template_fields None cs
      else template_fields (Some (f @ [c])) cs)"
| "template_fields None [c] = []"
| "template_fields None (c # c' # cs) =
     (if (c = CHR ''{'' \<and> c' = CHR ''{'') \<or> (c = CHR ''}'' \<and> c' = CHR ''}'')
      then template_fields None cs
      else if c = CHR ''{'' then template_fields (Some []) (c' # cs)
      else template_fields None (c' # cs))"

definition references :: "string \<Rightarrow> string \<Rightarrow> bool" where
  "references template name = (name \<in> field_name ` set (template_fields None template))"

section \<open>main.py: CommentaryEngine.broadcast_commentary\<close>






section \<open>Notions used in the statements\<close>

text \<open>
  A death edge: the record's champion is tracked, was alive after the previous snapshot
  and is not alive in this record. This is the test that guards the call of
  \<open>_on_champion_death\<close>.
\<close>

definition death_edge :: "EventDetector \<Rightarrow> ChampData \<Rightarrow> bool" where
  "death_edge s cd =
     (case map_of (champion_states s) (dict_get (d_id cd) '''') of
        None \<Rightarrow> False
      | Some prev_state \<Rightarrow> is_alive prev_state \<and> \<not> dict_get (d_is_alive cd) True)"

definition is_kill_event :: "GameEvent \<Rightarrow> bool" where
  "is_kill_event e = (event_type e = FIRST_BLOOD \<or> event_type e = CHAMPION_KILL)"

definition is_multikill :: "GameEvent \<Rightarrow> bool" where
  "is_multikill e =
     (event_type e = DOUBLE_KILL \<or> event_type e = TRIPLE_KILL \<or> event_type e = MULTI_KILL)"

definition of_type :: "EventType \<Rightarrow> GameEvent list \<Rightarrow> GameEvent list" where
  "of_type t evs = filter (\<lambda>e. event_type e = t) evs"

text \<open>The multi-kill window a tracked champion holds (empty for an untracked id).\<close>

definition kill_window :: "EventDetector \<Rightarrow> string \<Rightarrow> real list" where
  "kill_window s cid =
     (case map_of (champion_states s) cid of None \<Rightarrow> [] | Some c \<Rightarrow> recent_kills c)"

text \<open>The champion with id \<open>cid\<close> resolves as the killer of \<open>victim\<close>.\<close>

definition resolves_as_killer :: "EventDetector \<Rightarrow> ChampionState \<Rightarrow> string \<Rightarrow> bool" where
  "resolves_as_killer s victim cid =
     (case find_likely_killer s victim of
        Inl e \<Rightarrow> False
      | Inr None \<Rightarrow> False
      | Inr (Some k) \<Rightarrow> champ_id k = cid \<and> map_of (champion_states s) cid = Some k)"


text \<open>The stored per-team alive counts agree with the tracked champions.\<close>

definition counts_stored :: "EventDetector \<Rightarrow> bool" where
  "counts_stored s =
     (map_of (team_alive_count s) ''blue'' = Some (alive_count s ''blue'') \<and>
      map_of (team_alive_count s) ''red'' = Some (alive_count s ''red''))"


text \<open>Positions that carry both coordinates, in a snapshot and in the tracked state.\<close>

definition complete_position :: "(string \<times> real) list \<Rightarrow> bool" where
  "complete_position p = (map_of p ''x'' \<noteq> None \<and> map_of p ''y'' \<noteq> None)"


definition positions_ok :: "EventDetector \<Rightarrow> bool" where
  "positions_ok s = list_all (\<lambda>c. complete_position (position c)) (map snd (champion_states s))"

text \<open>The events \<open>_process_champion\<close> can emit.\<close>

definition champion_event :: "GameEvent \<Rightarrow> bool" where
  "champion_event e =
     (is_kill_event e \<or> is_multikill e \<or> event_type e = SHUTDOWN \<or>
      event_type e = LEVEL_UP \<or> event_type e = ULTIMATE_READY)"

text \<open>
  The kill events of an event list, by type and in order; and the only shape a match allows
  for them: one \<open>FIRST_BLOOD\<close>, then \<open>CHAMPION_KILL\<close>s.
\<close>

definition kill_types :: "GameEvent list \<Rightarrow> EventType list" where
  "kill_types evs = map event_type (filter is_kill_event evs)"

definition first_blood_then_kills :: "nat \<Rightarrow> EventType list" where
  "first_blood_then_kills n =
     (case n of 0 \<Rightarrow> [] | Suc m \<Rightarrow> FIRST_BLOOD # replicate m CHAMPION_KILL)"

definition kills_follow :: "bool \<Rightarrow> EventType list \<Rightarrow> bool \<Rightarrow> bool" where
  "kills_follow flag ks flag' =
     (flag' = (flag \<or> ks \<noteq> []) \<and>
      ks = (if flag then replicate (length ks) CHAMPION_KILL
            else first_blood_then_kills (length ks)))"

text \<open>The kill streak and the multi-kill window of every tracked champion.\<close>

definition streaks :: "EventDetector \<Rightarrow> (string \<times> int \<times> real list) list" where
  "streaks s = map (\<lambda>(cid, c). (cid, kill_streak c, recent_kills c)) (champion_states s)"


text \<open>
  The multi-kill events of an event list: their types, with the \<open>count\<close> of the payload
  where there is one.
\<close>

definition multikills :: "GameEvent list \<Rightarrow> (EventType \<times> pyval option) list" where
  "multikills evs = map (\<lambda>e. (event_type e, map_of (data e) ''count'')) (filter is_multikill evs)"

text \<open>
  A check on a format string, by the same scan: no replacement field is positional, only
  the last one has a format spec, and no brace is unbalanced before the last field closes.
  On such a string nothing can be raised before the first lookup of an absent field.
\<close>

fun key_safe :: "string option \<Rightarrow> string \<Rightarrow> bool" where
  "key_safe None [] = True"
| "key_safe (Some f) [] = True"
| "key_safe (Some f) (c # cs) =
     (if c = CHR ''}''
      then \<not> positional (field_name f) \<and>
           (template_fields None cs = [] \<or> (field_spec f = [] \<and> key_safe None cs))
      else key_safe (Some (f @ [c])) cs)"
| "key_safe None [c] = True"
| "key_safe None (c # c' # cs) =
     (if (c = CHR ''{'' \<and> c' = CHR ''{'') \<or> (c = CHR ''}'' \<and> c' = CHR ''}'')
      then key_safe None cs
      else if c = CHR ''{'' then key_safe (Some []) (c' # cs)
      else if c = CHR ''}'' then template_fields None (c' # cs) = []
      else key_safe None (c' # cs))"

text \<open>
  The shape of \<open>champion_states\<close> as a dict of objects: no key twice, and every tracked
  state stored under its own id.
\<close>

definition keys_ok :: "EventDetector \<Rightarrow> bool" where
  "keys_ok s =
     (distinct (map fst (champion_states s)) \<and>
      list_all (\<lambda>p. champ_id (snd p) = fst p) (champion_states s))"

section \<open>Example inputs\<close>

text \<open>A snapshot without champions, whose blue nexus is at 1000.\<close>

definition quiet_snapshot :: Snapshot where
  "quiet_snapshot =
     \<lparr>snap_tick = Some 7, match_time = Some 42, status = Some ''playing'', champions = Some [],
      blue_nexus_health = Some 1000, red_nexus_health = None, winner = None\<rparr>"

text \<open>
  A champion record with an id, a team and an alive flag, and a snapshot of a running match
  at a given time; every other key is absent.
\<close>

definition champ_record :: "string \<Rightarrow> string \<Rightarrow> bool \<Rightarrow> ChampData" where
  "champ_record cid tm alive =
     \<lparr>d_id = Some cid, d_champion = None, d_team = Some tm, d_health = None,
      d_max_health = None, d_level = None, d_is_alive = Some alive, d_position = None\<rparr>"

definition playing :: "real \<Rightarrow> ChampData list \<Rightarrow> Snapshot" where
  "playing t cds =
     \<lparr>snap_tick = None, match_time = Some t, status = Some ''playing'', champions = Some cds,
      blue_nexus_health = None, red_nexus_health = None, winner = None\<rparr>"

text \<open>The tracked state that the adoption of such a record creates.\<close>

definition tracked :: "string \<Rightarrow> string \<Rightarrow> bool \<Rightarrow> ChampionState" where
  "tracked cid tm alive =
     \<lparr>champ_id = cid, champion = ''Unknown'', team = tm, health = 0, max_health = 600,
      level = 1, is_alive = alive, position = [(''x'', 0), (''y'', 0)],
      kill_streak = 0, recent_kills = []\<rparr>"

text \<open>
  The detector after a first snapshot with the blue champion \<open>a\<close> and the red champion
  \<open>b\<close>, both alive.
\<close>

definition duel_start :: Snapshot where
  "duel_start = playing 0 [champ_record ''a'' ''blue'' True, champ_record ''b'' ''red'' True]"

definition duel :: EventDetector where
  "duel =
     \<lparr>previous_state = Some duel_start,
      champion_states = [(''a'', tracked ''a'' ''blue'' True), (''b'', tracked ''b'' ''red'' True)],
      first_blood_occurred = False,
      team_alive_count = [(''blue'', 1), (''red'', 1)],
      towers_destroyed = [(''blue'', 0), (''red'', 0)],
      match_started = True\<rparr>"

text \<open>The next snapshot, one second later: \<open>a\<close> is dead.\<close>

definition duel_kill :: Snapshot where
  "duel_kill = playing 1 [champ_record ''a'' ''blue'' False, champ_record ''b'' ''red'' True]"

text \<open>A snapshot of an ended match, won by red, at a given time.\<close>

definition ended :: "real \<Rightarrow> Snapshot" where
  "ended t =
     \<lparr>snap_tick = None, match_time = Some t, status = Some ''ended'', champions = None,
      blue_nexus_health = Some 0, red_nexus_health = Some 3000, winner = Some ''red''\<rparr>"

text \<open>
  The detector after \<open>duel_kill\<close>: \<open>b\<close> resolved as the killer of \<open>a\<close>. Then a third
  snapshot in which \<open>a\<close> is alive again and \<open>b\<close> is dead, and the detector after it.
\<close>

definition first_blood_a :: GameEvent where
  "first_blood_a =
     \<lparr>event_type = FIRST_BLOOD, timestamp = 1, tick = 0,
      data = kill_data (tracked ''a'' ''blue'' True) (Some (tracked ''b'' ''red'' True))\<rparr>"

definition duel_after_kill :: EventDetector where
  "duel_after_kill =
     \<lparr>previous_state = Some duel_kill,
      champion_states =
        [(''a'', tracked ''a'' ''blue'' False),
         (''b'', (tracked ''b'' ''red'' True)\<lparr>kill_streak := 1, recent_kills := [1]\<rparr>)],
      first_blood_occurred = True,
      team_alive_count = [(''blue'', 0), (''red'', 1)],
      towers_destroyed = [(''blue'', 0), (''red'', 0)],
      match_started = True\<rparr>"

definition duel_revenge :: Snapshot where
  "duel_revenge = playing 2 [champ_record ''a'' ''blue'' True, champ_record ''b'' ''red'' False]"

definition kill_b :: GameEvent where
  "kill_b =
     \<lparr>event_type = CHAMPION_KILL, timestamp = 2, tick = 0,
      data = kill_data ((tracked ''b'' ''red'' True)\<lparr>kill_streak := 1, recent_kills := [1]\<rparr>)
               (Some (tracked ''a'' ''blue'' True))\<rparr>"

definition duel_after_revenge :: EventDetector where
  "duel_after_revenge =
     \<lparr>previous_state = Some duel_revenge,
      champion_states =
        [(''a'', (tracked ''a'' ''blue'' True)\<lparr>kill_streak := 1, recent_kills := [2]\<rparr>),
         (''b'', (tracked ''b'' ''red'' False)\<lparr>kill_streak := 1, recent_kills := [1]\<rparr>)],
      first_blood_occurred = True,
      team_alive_count = [(''blue'', 1), (''red'', 0)],
      towers_destroyed = [(''blue'', 0), (''red'', 0)],
      match_started = True\<rparr>"

text \<open>
  The duel with both champions alive, where \<open>a\<close> has a kill streak \<open>n\<close> and the window
  \<open>w\<close>, and the first-blood flag is \<open>fb\<close>.
\<close>

definition duel_with :: "int \<Rightarrow> real list \<Rightarrow> bool \<Rightarrow> EventDetector" where
  "duel_with n w fb =
     \<lparr>previous_state = Some duel_start,
      champion_states =
        [(''a'', (tracked ''a'' ''blue'' True)\<lparr>kill_streak := n, recent_kills := w\<rparr>),
         (''b'', tracked ''b'' ''red'' True)],
      first_blood_occurred = fb,
      team_alive_count = [(''blue'', 1), (''red'', 1)],
      towers_destroyed = [(''blue'', 0), (''red'', 0)],
      match_started = True\<rparr>"





text \<open>A printer of values: strings print as they are, and every format spec is refused.\<close>

definition strict_printer :: printer where
  "strict_printer =
     \<lparr>py_str = (\<lambda>v. case v of PStr s \<Rightarrow> s | PNone \<Rightarrow> ''None'' | PInt i \<Rightarrow> ''int'' | PFloat x \<Rightarrow> ''float''),
      py_spec = (\<lambda>spec v. Inl TypeError)\<rparr>"

section \<open>Basic facts\<close>

lemma ebind_Inl [simp]: "ebind (Inl e) f = Inl e"
  by (simp add: ebind_def)

lemma ebind_Inr [simp]: "ebind (Inr v) f = f v"
  by (simp add: ebind_def)

lemma dict_get_None [simp]: "dict_get None d = d"
  by (simp add: dict_get_def)

lemma dict_get_Some [simp]: "dict_get (Some v) d = v"
  by (simp add: dict_get_def)




lemma killer_loop_result:
  "killer_loop e v cs closest cd = Inr (Some k) \<Longrightarrow>
   closest = Some k \<or> (k \<in> set cs \<and> team k = e \<and> is_alive k)"
  by (induction cs arbitrary: closest cd) (auto split: if_splits sum.splits)

lemma find_likely_killer_team:
  "find_likely_killer s v = Inr (Some k) \<Longrightarrow>
   k \<in> snd ` set (champion_states s) \<and> team k = enemy_of (team v) \<and> is_alive k"
  unfolding find_likely_killer_def by (drule killer_loop_result) auto

lemma enemy_of_neq: "enemy_of tm \<noteq> tm"
  by (simp add: enemy_of_def)



section \<open>The event types each phase of \<open>detect\<close> emits\<close>

lemma multikill_events_types:
  "e \<in> set (multikill_events k n tk ts) \<Longrightarrow> is_multikill e"
  by (auto simp: multikill_events_def is_multikill_def split: if_splits)

lemma shutdown_events_types:
  "e \<in> set (shutdown_events v k tk ts) \<Longrightarrow> event_type e = SHUTDOWN"
  by (auto simp: shutdown_events_def split: if_splits)

lemma level_events_types:
  "e \<in> set (level_events cid p l tk ts) \<Longrightarrow>
   event_type e = LEVEL_UP \<or> event_type e = ULTIMATE_READY"
  by (auto simp: level_events_def split: if_splits)

lemma on_champion_death_types:
  assumes "on_champion_death s v tk ts = Inr (evs, s')" and "e \<in> set evs"
  shows "is_kill_event e \<or> is_multikill e \<or> event_type e = SHUTDOWN"
  using assms
  by (auto simp: on_champion_death_def Let_def is_kill_event_def
      split: sum.splits option.splits if_splits
      dest: multikill_events_types shutdown_events_types)

lemma process_champion_types:
  assumes "process_champion s cd tk ts = Inr (evs, s')" and "e \<in> set evs"
  shows "champion_event e"
  using assms
  by (auto simp: process_champion_def Let_def champion_event_def
      split: option.splits sum.splits if_splits
      dest: on_champion_death_types level_events_types)

lemma process_champions_types:
  "process_champions s cds tk ts = Inr (evs, s') \<Longrightarrow> e \<in> set evs \<Longrightarrow> champion_event e"
proof (induction cds arbitrary: s evs)
  case Nil
  then show ?case by simp
next
  case (Cons cd cds)
  from Cons.prems(1) obtain ev1 s1 ev2 where
    1: "process_champion s cd tk ts = Inr (ev1, s1)" and
    2: "process_champions s1 cds tk ts = Inr (ev2, s')" and
    3: "evs = ev1 @ ev2"
    by (auto split: sum.splits)
  from Cons.prems(2) 3 have "e \<in> set ev1 \<or> e \<in> set ev2" by simp
  then show ?case
    using process_champion_types[OF 1] Cons.IH[OF 2] by blast
qed

lemma check_ace_loop_types:
  "e \<in> set (fst (check_ace_loop tms s tk ts)) \<Longrightarrow> event_type e = ACE"
  by (induction tms arbitrary: s) (auto simp: Let_def ace_event_def split: if_splits)

lemma structures_loop_types:
  "e \<in> set (structures_loop tms snap tk ts) \<Longrightarrow> event_type e = NEXUS_LOW"
  by (induction tms) (auto simp: Let_def nexus_low_event_def split: if_splits)

lemma check_ace_types: "e \<in> set (fst (check_ace s tk ts)) \<Longrightarrow> event_type e = ACE"
  unfolding check_ace_def by (rule check_ace_loop_types)

lemma process_structures_types:
  "e \<in> set (process_structures snap tk ts) \<Longrightarrow> event_type e = NEXUS_LOW"
  unfolding process_structures_def by (rule structures_loop_types)

lemma filter_none: "(\<And>e. e \<in> set evs \<Longrightarrow> \<not> P e) \<Longrightarrow> filter P evs = []"
  by (induction evs) auto

lemma filter_all: "(\<And>e. e \<in> set evs \<Longrightarrow> P e) \<Longrightarrow> filter P evs = evs"
  by (induction evs) auto

text \<open>The events of one call, phase by phase.\<close>

lemma detect_events:
  assumes "detect s snap = Inr (evs, s')"
  obtains ev1 s1 where
    "process_champions
       (if \<not> match_started s \<and> status snap = Some ''playing'' then s\<lparr>match_started := True\<rparr> else s)
       (dict_get (champions snap) []) (dict_get (snap_tick snap) 0) (dict_get (match_time snap) 0)
     = Inr (ev1, s1)"
    "evs = (if \<not> match_started s \<and> status snap = Some ''playing''
            then [\<lparr>event_type = MATCH_START, timestamp = dict_get (match_time snap) 0,
                   tick = dict_get (snap_tick snap) 0, data = []\<rparr>] else [])
           @ ev1
           @ fst (check_ace s1 (dict_get (snap_tick snap) 0) (dict_get (match_time snap) 0))
           @ process_structures snap (dict_get (snap_tick snap) 0) (dict_get (match_time snap) 0)
           @ (if status snap = Some ''ended''
              then [match_end_event snap (dict_get (snap_tick snap) 0) (dict_get (match_time snap) 0)]
              else [])"
    "s' = (snd (check_ace s1 (dict_get (snap_tick snap) 0) (dict_get (match_time snap) 0)))
            \<lparr>previous_state := Some snap\<rparr>"
  using assms by (auto simp: detect_def Let_def split: sum.splits)

section \<open>NEXUS_LOW\<close>

lemma process_structures_nexus_low:
  "process_structures snap tk ts =
     (case blue_nexus_health snap of
        None \<Rightarrow> []
      | Some h \<Rightarrow> if 0 < h \<and> h \<le> 1000 then [nexus_low_event ''blue'' h tk ts] else [])
     @ (case red_nexus_health snap of
          None \<Rightarrow> []
        | Some h \<Rightarrow> if 0 < h \<and> h \<le> 1000 then [nexus_low_event ''red'' h tk ts] else [])"
  by (auto simp: process_structures_def snapshot_key_def Let_def split: option.splits)

lemma champion_event_not_nexus: "champion_event e \<Longrightarrow> event_type e \<noteq> NEXUS_LOW"
  by (auto simp: champion_event_def is_kill_event_def is_multikill_def)

text \<open>
  C8. On every call of \<open>detect\<close> that returns, and whatever the detector's state, the
  \<open>NEXUS_LOW\<close> events are exactly: one for blue when the snapshot has a blue nexus health
  \<open>h\<close> with \<open>0 < h \<le> 1000\<close>, then one for red under the same condition on the red
  nexus health. Nothing is remembered between calls, so the event repeats on every call for
  which the condition holds; none is emitted for a health of 0, above 1000, or absent.
\<close>

theorem C8_nexus_low_every_call:
  assumes "detect s snap = Inr (evs, s')"
  shows "of_type NEXUS_LOW evs =
     (case blue_nexus_health snap of
        None \<Rightarrow> []
      | Some h \<Rightarrow> if 0 < h \<and> h \<le> 1000
                  then [nexus_low_event ''blue'' h (dict_get (snap_tick snap) 0)
                          (dict_get (match_time snap) 0)]
                  else [])
     @ (case red_nexus_health snap of
          None \<Rightarrow> []
        | Some h \<Rightarrow> if 0 < h \<and> h \<le> 1000
                    then [nexus_low_event ''red'' h (dict_get (snap_tick snap) 0)
                            (dict_get (match_time snap) 0)]
                    else [])"
proof -
  let ?tk = "dict_get (snap_tick snap) 0" and ?ts = "dict_get (match_time snap) 0"
  from assms obtain ev1 s1 where
    pc: "process_champions
       (if \<not> match_started s \<and> status snap = Some ''playing'' then s\<lparr>match_started := True\<rparr> else s)
       (dict_get (champions snap) []) ?tk ?ts = Inr (ev1, s1)"
    and evs: "evs = (if \<not> match_started s \<and> status snap = Some ''playing''
            then [\<lparr>event_type = MATCH_START, timestamp = ?ts, tick = ?tk, data = []\<rparr>] else [])
           @ ev1 @ fst (check_ace s1 ?tk ?ts) @ process_structures snap ?tk ?ts
           @ (if status snap = Some ''ended'' then [match_end_event snap ?tk ?ts] else [])"
    by (rule detect_events)
  have a: "of_type NEXUS_LOW ev1 = []"
    unfolding of_type_def
    by (rule filter_none) (auto dest!: process_champions_types[OF pc] champion_event_not_nexus)
  have b: "of_type NEXUS_LOW (fst (check_ace s1 ?tk ?ts)) = []"
    unfolding of_type_def
    by (rule filter_none) (auto dest!: check_ace_types)
  have c: "of_type NEXUS_LOW (process_structures snap ?tk ?ts) = process_structures snap ?tk ?ts"
    unfolding of_type_def
    by (rule filter_all) (auto dest!: process_structures_types)
  have "of_type NEXUS_LOW evs = process_structures snap ?tk ?ts"
    using a b c unfolding evs by (simp add: of_type_def match_end_event_def)
  then show ?thesis by (simp only: process_structures_nexus_low)
qed

lemma detect_quiet:
  "detect new_detector quiet_snapshot =
     Inr ([\<lparr>event_type = MATCH_START, timestamp = 42, tick = 7, data = []\<rparr>,
           nexus_low_event ''blue'' 1000 7 42],
          new_detector\<lparr>match_started := True, previous_state := Some quiet_snapshot\<rparr>)"
  by (simp add: detect_def quiet_snapshot_def new_detector_def check_ace_def alive_count_def
      process_structures_def snapshot_key_def Let_def)

theorem C8_nexus_low_witness:
  "detect new_detector quiet_snapshot =
     Inr ([\<lparr>event_type = MATCH_START, timestamp = 42, tick = 7, data = []\<rparr>,
           nexus_low_event ''blue'' 1000 7 42],
          new_detector\<lparr>match_started := True, previous_state := Some quiet_snapshot\<rparr>)
   \<and> of_type NEXUS_LOW
        [\<lparr>event_type = MATCH_START, timestamp = 42, tick = 7, data = []\<rparr>,
         nexus_low_event ''blue'' 1000 7 42]
      = [nexus_low_event ''blue'' 1000 7 42]"
  using C8_nexus_low_every_call [OF detect_quiet] detect_quiet
  by (simp add: quiet_snapshot_def)

section \<open>What a champion record leaves unchanged\<close>

lemma on_champion_death_frame:
  assumes "on_champion_death s v tk ts = Inr (evs, s')"
  shows "team_alive_count s' = team_alive_count s \<and> match_started s' = match_started s \<and>
         previous_state s' = previous_state s \<and> towers_destroyed s' = towers_destroyed s"
  using assms
  by (auto simp: on_champion_death_def Let_def split: sum.splits option.splits if_splits)

lemma process_champion_frame:
  assumes "process_champion s cd tk ts = Inr (evs, s')"
  shows "team_alive_count s' = team_alive_count s \<and> match_started s' = match_started s \<and>
         previous_state s' = previous_state s \<and> towers_destroyed s' = towers_destroyed s"
  using assms
  by (auto simp: process_champion_def Let_def mutate_def
      split: option.splits sum.splits if_splits dest: on_champion_death_frame)

lemma process_champions_frame:
  "process_champions s cds tk ts = Inr (evs, s') \<Longrightarrow>
   team_alive_count s' = team_alive_count s \<and> match_started s' = match_started s \<and>
   previous_state s' = previous_state s \<and> towers_destroyed s' = towers_destroyed s"
proof (induction cds arbitrary: s evs)
  case Nil
  then show ?case by simp
next
  case (Cons cd cds)
  from Cons.prems obtain ev1 s1 ev2 where
    1: "process_champion s cd tk ts = Inr (ev1, s1)" and
    2: "process_champions s1 cds tk ts = Inr (ev2, s')"
    by (auto split: sum.splits)
  show ?case
    using process_champion_frame[OF 1] Cons.IH[OF 2] by simp
qed

section \<open>ACE\<close>

lemma alive_count_team_alive_count [simp]:
  "alive_count (s\<lparr>team_alive_count := c\<rparr>) tm = alive_count s tm"
  by (simp add: alive_count_def)

lemma alive_count_previous_state [simp]:
  "alive_count (s\<lparr>previous_state := p\<rparr>) tm = alive_count s tm"
  by (simp add: alive_count_def)

lemma alive_count_match_started [simp]:
  "alive_count (s\<lparr>match_started := p\<rparr>) tm = alive_count s tm"
  by (simp add: alive_count_def)

lemma check_ace_eq:
  "check_ace s tk ts =
     ((if 0 < dict_get (map_of (team_alive_count s) ''blue'') 0 \<and> alive_count s ''blue'' = 0
       then [ace_event ''blue'' tk ts] else [])
      @ (if 0 < dict_get (map_of (team_alive_count s) ''red'') 0 \<and> alive_count s ''red'' = 0
         then [ace_event ''red'' tk ts] else []),
      s\<lparr>team_alive_count :=
          AList.update ''red'' (alive_count s ''red'')
            (AList.update ''blue'' (alive_count s ''blue'') (team_alive_count s))\<rparr>)"
  by (simp add: check_ace_def Let_def update_conv')




lemma counts_stored_new: "counts_stored new_detector"
  by (simp add: counts_stored_def new_detector_def alive_count_def)

section \<open>Evaluation on the example inputs\<close>

lemmas detector_defs =
  detect_def process_champion_def on_champion_death_def find_likely_killer_def distance_def
  subscript_def closer_def enemy_of_def kill_data_def multikill_events_def shutdown_events_def
  level_events_def mutate_def new_champion_state_def check_ace_eq alive_count_def
  process_structures_def snapshot_key_def Let_def

lemmas example_defs =
  champ_record_def playing_def tracked_def duel_start_def duel_def duel_kill_def ended_def
  new_detector_def

lemma detect_duel_start:
  "detect new_detector duel_start =
     Inr ([\<lparr>event_type = MATCH_START, timestamp = 0, tick = 0, data = []\<rparr>], duel)"
  by (simp add: detector_defs example_defs)

lemma detect_duel_kill:
  "detect duel duel_kill =
     Inr ([\<lparr>event_type = FIRST_BLOOD, timestamp = 1, tick = 0,
            data = kill_data (tracked ''a'' ''blue'' True) (Some (tracked ''b'' ''red'' True))\<rparr>,
           ace_event ''blue'' 0 1],
          duel\<lparr>previous_state := Some duel_kill,
               champion_states :=
                 [(''a'', tracked ''a'' ''blue'' False),
                  (''b'', (tracked ''b'' ''red'' True)\<lparr>kill_streak := 1, recent_kills := [1]\<rparr>)],
               first_blood_occurred := True,
               team_alive_count := [(''blue'', 0), (''red'', 1)]\<rparr>)"
  by (simp add: detector_defs example_defs)


text \<open>
  C1. \<open>MATCH_END\<close> is not edge-triggered in the code: \<open>detect\<close> appends it whenever
  the status of the snapshot is \<open>ended\<close>, with no memory of the previous status (the
  sibling event \<open>MATCH_START\<close> is guarded by the flag \<open>match_started\<close>). Two
  consecutive snapshots of an ended match both yield the event, each with the snapshot's
  winner and its \<open>match_time\<close> as the duration.
\<close>

theorem C1_match_end_emitted_again:
  "detect_run new_detector [ended 300, ended 301] =
     Inr ([[match_end_event (ended 300) 0 300], [match_end_event (ended 301) 0 301]],
          new_detector\<lparr>previous_state := Some (ended 301)\<rparr>)"
  by (simp add: detector_defs example_defs)

section \<open>FIRST_BLOOD\<close>

lemma kill_types_append [simp]: "kill_types (a @ b) = kill_types a @ kill_types b"
  by (simp add: kill_types_def)

lemma kill_types_Nil [simp]: "kill_types [] = []"
  by (simp add: kill_types_def)

lemma kill_types_none: "(\<And>e. e \<in> set evs \<Longrightarrow> \<not> is_kill_event e) \<Longrightarrow> kill_types evs = []"
  unfolding kill_types_def by (simp add: filter_none)

lemma multikill_not_kill: "is_multikill e \<Longrightarrow> \<not> is_kill_event e"
  by (auto simp: is_multikill_def is_kill_event_def)

lemma on_champion_death_kills:
  assumes "on_champion_death s v tk ts = Inr (evs, s')"
  shows "kill_types evs = [if first_blood_occurred s then CHAMPION_KILL else FIRST_BLOOD]
         \<and> first_blood_occurred s'"
proof -
  from assms obtain killer where k: "find_likely_killer s v = Inr killer"
    by (auto simp: on_champion_death_def split: sum.splits)
  have m: "kill_types (multikill_events k n tk ts) = []" for k n
    by (rule kill_types_none) (auto dest: multikill_events_types multikill_not_kill)
  have sh: "kill_types (shutdown_events v k tk ts) = []" for k
    by (rule kill_types_none) (auto dest: shutdown_events_types simp: is_kill_event_def)
  show ?thesis
    using assms k m sh
    by (auto simp: on_champion_death_def Let_def kill_types_def is_kill_event_def
        split: option.splits if_splits)
qed

lemma level_events_kills [simp]: "kill_types (level_events cid p l tk ts) = []"
  by (rule kill_types_none) (auto dest: level_events_types simp: is_kill_event_def)

lemma first_blood_mutate [simp]: "first_blood_occurred (mutate cid f s) = first_blood_occurred s"
  by (simp add: mutate_def)

lemma process_champion_kills:
  assumes "process_champion s cd tk ts = Inr (evs, s')"
  shows "kill_types evs =
           (if death_edge s cd
            then [if first_blood_occurred s then CHAMPION_KILL else FIRST_BLOOD] else [])
         \<and> first_blood_occurred s' = (first_blood_occurred s \<or> death_edge s cd)"
proof (cases "map_of (champion_states s) (dict_get (d_id cd) '''')")
  case None
  with assms show ?thesis
    by (auto simp: process_champion_def death_edge_def Let_def)
next
  case (Some p)
  show ?thesis
  proof (cases "is_alive p \<and> \<not> dict_get (d_is_alive cd) True")
    case True
    with assms Some obtain ev1 s1 where
      d: "on_champion_death s p tk ts = Inr (ev1, s1)"
      and evs: "evs = ev1 @ level_events (dict_get (d_id cd) '''') p (dict_get (d_level cd) 1) tk ts"
      and s': "first_blood_occurred s' = first_blood_occurred s1"
      by (auto simp: process_champion_def Let_def split: sum.splits)
    from True Some have "death_edge s cd" by (simp add: death_edge_def)
    then show ?thesis
      using on_champion_death_kills[OF d] evs s' by simp
  next
    case False
    with Some have "\<not> death_edge s cd" by (simp add: death_edge_def)
    then show ?thesis
      using assms Some False by (auto simp: process_champion_def Let_def split: if_splits)
  qed
qed

lemma kills_follow_Nil [simp]: "kills_follow flag [] flag' = (flag' = flag)"
  by (auto simp: kills_follow_def first_blood_then_kills_def)

lemma kills_follow_append:
  assumes "kills_follow f k1 f1" and "kills_follow f1 k2 f2"
  shows "kills_follow f (k1 @ k2) f2"
proof (cases k1)
  case Nil
  with assms show ?thesis by simp
next
  case (Cons a k1')
  with assms(1) have f1: "f1" by (simp add: kills_follow_def)
  with assms(2) have k2: "k2 = replicate (length k2) CHAMPION_KILL" and f2: "f2"
    by (simp_all add: kills_follow_def)
  show ?thesis
  proof (cases f)
    case True
    with assms(1) have "k1 = replicate (length k1) CHAMPION_KILL" by (simp add: kills_follow_def)
    then have "k1 @ k2 = replicate (length k1 + length k2) CHAMPION_KILL"
      using k2 by (metis replicate_add)
    with True f2 show ?thesis by (simp add: kills_follow_def)
  next
    case False
    with assms(1) Cons have "k1 = FIRST_BLOOD # replicate (length k1') CHAMPION_KILL"
      by (simp add: kills_follow_def first_blood_then_kills_def)
    then have "k1 @ k2 = FIRST_BLOOD # replicate (length k1' + length k2) CHAMPION_KILL"
      using k2 by (metis append_Cons replicate_add)
    with False f2 Cons show ?thesis
      by (simp add: kills_follow_def first_blood_then_kills_def)
  qed
qed

lemma process_champion_kills_follow:
  assumes "process_champion s cd tk ts = Inr (evs, s')"
  shows "kills_follow (first_blood_occurred s) (kill_types evs) (first_blood_occurred s')"
  using process_champion_kills[OF assms]
  by (auto simp: kills_follow_def first_blood_then_kills_def)

lemma process_champions_kills_follow:
  "process_champions s cds tk ts = Inr (evs, s') \<Longrightarrow>
   kills_follow (first_blood_occurred s) (kill_types evs) (first_blood_occurred s')"
proof (induction cds arbitrary: s evs)
  case Nil
  then show ?case by simp
next
  case (Cons cd cds)
  from Cons.prems obtain ev1 s1 ev2 where
    1: "process_champion s cd tk ts = Inr (ev1, s1)" and
    2: "process_champions s1 cds tk ts = Inr (ev2, s')" and
    3: "evs = ev1 @ ev2"
    by (auto split: sum.splits)
  show ?case
    unfolding 3 kill_types_append
    by (rule kills_follow_append[OF process_champion_kills_follow[OF 1] Cons.IH[OF 2]])
qed

lemma detect_kills_follow:
  assumes "detect s snap = Inr (evs, s')"
  shows "kills_follow (first_blood_occurred s) (kill_types evs) (first_blood_occurred s')"
proof -
  let ?tk = "dict_get (snap_tick snap) 0" and ?ts = "dict_get (match_time snap) 0"
  let ?s0 = "if \<not> match_started s \<and> status snap = Some ''playing''
             then s\<lparr>match_started := True\<rparr> else s"
  from assms obtain ev1 s1 where
    pc: "process_champions ?s0 (dict_get (champions snap) []) ?tk ?ts = Inr (ev1, s1)"
    and evs: "evs = (if \<not> match_started s \<and> status snap = Some ''playing''
            then [\<lparr>event_type = MATCH_START, timestamp = ?ts, tick = ?tk, data = []\<rparr>] else [])
           @ ev1 @ fst (check_ace s1 ?tk ?ts) @ process_structures snap ?tk ?ts
           @ (if status snap = Some ''ended'' then [match_end_event snap ?tk ?ts] else [])"
    and s': "s' = (snd (check_ace s1 ?tk ?ts))\<lparr>previous_state := Some snap\<rparr>"
    by (rule detect_events)
  have a: "kill_types (fst (check_ace s1 ?tk ?ts)) = []"
    by (rule kill_types_none) (auto dest!: check_ace_types simp: is_kill_event_def)
  have b: "kill_types (process_structures snap ?tk ?ts) = []"
    by (rule kill_types_none) (auto dest!: process_structures_types simp: is_kill_event_def)
  have "kill_types evs = kill_types ev1"
    unfolding evs using a b by (simp add: kill_types_def is_kill_event_def match_end_event_def)
  moreover have "first_blood_occurred s' = first_blood_occurred s1"
    unfolding s' by (simp add: check_ace_eq)
  moreover have "first_blood_occurred ?s0 = first_blood_occurred s" by simp
  ultimately show ?thesis
    using process_champions_kills_follow[OF pc] by simp
qed

lemma detect_run_kills_follow:
  "detect_run s snaps = Inr (evss, s') \<Longrightarrow>
   kills_follow (first_blood_occurred s) (kill_types (concat evss)) (first_blood_occurred s')"
proof (induction snaps arbitrary: s evss)
  case Nil
  then show ?case by simp
next
  case (Cons snap snaps)
  from Cons.prems obtain ev s1 evs where
    1: "detect s snap = Inr (ev, s1)" and
    2: "detect_run s1 snaps = Inr (evs, s')" and
    3: "evss = ev # evs"
    by (auto split: sum.splits)
  show ?case
    unfolding 3 concat.simps kill_types_append
    by (rule kills_follow_append[OF detect_kills_follow[OF 1] Cons.IH[OF 2]])
qed

text \<open>
  C3. Over every run of one detector from its creation that returns, the kill events of
  all calls, read in order, are one \<open>FIRST_BLOOD\<close> followed by \<open>CHAMPION_KILL\<close>s only (or
  there is none), and the flag \<open>first_blood_occurred\<close> is set at the end exactly if there
  was one. Every champion record that is a death edge emits exactly one kill event,
  \<open>FIRST_BLOOD\<close> if the flag is unset and \<open>CHAMPION_KILL\<close> if it is set, and a record that
  is no death edge emits none; the flag after the record is set exactly if it was set
  before or the record is a death edge, so it is set by the first death edge and never
  cleared.
\<close>

theorem C3_first_blood_once:
  assumes "detect_run new_detector snaps = Inr (evss, s')"
    and "process_champion s cd tk ts = Inr (evs, s1)"
  shows "kill_types (concat evss) = first_blood_then_kills (length (kill_types (concat evss)))
         \<and> first_blood_occurred s' = (kill_types (concat evss) \<noteq> [])
         \<and> kill_types evs =
             (if death_edge s cd
              then [if first_blood_occurred s then CHAMPION_KILL else FIRST_BLOOD] else [])
         \<and> first_blood_occurred s1 = (first_blood_occurred s \<or> death_edge s cd)"
  using detect_run_kills_follow[OF assms(1)] process_champion_kills[OF assms(2)]
  by (simp add: kills_follow_def new_detector_def)

lemmas duel_defs =
  first_blood_a_def duel_after_kill_def duel_revenge_def kill_b_def duel_after_revenge_def

lemma detect_duel_run:
  "detect_run new_detector [duel_start, duel_kill, duel_revenge] =
     Inr ([[\<lparr>event_type = MATCH_START, timestamp = 0, tick = 0, data = []\<rparr>],
           [first_blood_a, ace_event ''blue'' 0 1],
           [kill_b, ace_event ''red'' 0 2]],
          duel_after_revenge)"
  by (simp add: detector_defs example_defs duel_defs)

lemma process_duel_kill:
  "process_champion duel (champ_record ''a'' ''blue'' False) 0 1 =
     Inr ([first_blood_a],
          duel_after_kill\<lparr>previous_state := Some duel_start,
                          team_alive_count := [(''blue'', 1), (''red'', 1)]\<rparr>)"
  by (simp add: detector_defs example_defs duel_defs)

theorem C3_first_blood_witness:
  "detect_run new_detector [duel_start, duel_kill, duel_revenge] =
     Inr ([[\<lparr>event_type = MATCH_START, timestamp = 0, tick = 0, data = []\<rparr>],
           [first_blood_a, ace_event ''blue'' 0 1],
           [kill_b, ace_event ''red'' 0 2]],
          duel_after_revenge)
   \<and> process_champion duel (champ_record ''a'' ''blue'' False) 0 1 =
     Inr ([first_blood_a],
          duel_after_kill\<lparr>previous_state := Some duel_start,
                          team_alive_count := [(''blue'', 1), (''red'', 1)]\<rparr>)
   \<and> kill_types [\<lparr>event_type = MATCH_START, timestamp = 0, tick = 0, data = []\<rparr>,
                 first_blood_a, ace_event ''blue'' 0 1, kill_b, ace_event ''red'' 0 2]
       = [FIRST_BLOOD, CHAMPION_KILL]
   \<and> first_blood_occurred duel_after_revenge
   \<and> death_edge duel (champ_record ''a'' ''blue'' False)
   \<and> kill_types [first_blood_a] = [FIRST_BLOOD]"
  using detect_duel_run process_duel_kill C3_first_blood_once [OF detect_duel_run process_duel_kill]
  by (simp add: kill_types_def is_kill_event_def ace_event_def death_edge_def example_defs duel_defs)

section \<open>The events of a death\<close>

lemma on_champion_death_unresolved:
  assumes "find_likely_killer s v = Inr None"
  shows "on_champion_death s v tk ts =
     Inr ([\<lparr>event_type = (if first_blood_occurred s then CHAMPION_KILL else FIRST_BLOOD),
             timestamp = ts, tick = tk, data = kill_data v None\<rparr>],
          s\<lparr>first_blood_occurred := True\<rparr>)"
  using assms by (auto simp: on_champion_death_def Let_def)

lemma on_champion_death_resolved:
  assumes "find_likely_killer s v = Inr (Some k)"
  shows "on_champion_death s v tk ts =
     Inr (\<lparr>event_type = (if first_blood_occurred s then CHAMPION_KILL else FIRST_BLOOD),
            timestamp = ts, tick = tk, data = kill_data v (Some k)\<rparr>
          # multikill_events k (int (length (filter (\<lambda>t. ts - t < 10) (recent_kills k @ [ts])))) tk ts
          @ shutdown_events v k tk ts,
          s\<lparr>first_blood_occurred := True,
            champion_states :=
              AList.update (champ_id k)
                (k\<lparr>kill_streak := kill_streak k + 1,
                   recent_kills := filter (\<lambda>t. ts - t < 10) (recent_kills k @ [ts])\<rparr>)
                (champion_states s)\<rparr>)"
  using assms
  by (auto simp: on_champion_death_def Let_def multikill_events_def shutdown_events_def)

lemma of_type_append [simp]: "of_type t (a @ b) = of_type t a @ of_type t b"
  by (simp add: of_type_def)

lemma of_type_Cons:
  "of_type t (e # es) = (if event_type e = t then [e] else []) @ of_type t es"
  by (simp add: of_type_def)

lemma of_type_none: "(\<And>e. e \<in> set evs \<Longrightarrow> event_type e \<noteq> t) \<Longrightarrow> of_type t evs = []"
  unfolding of_type_def by (rule filter_none) simp

lemma of_type_all: "(\<And>e. e \<in> set evs \<Longrightarrow> event_type e = t) \<Longrightarrow> of_type t evs = evs"
  unfolding of_type_def by (rule filter_all) simp

lemma shutdown_of_multikill [simp]: "of_type SHUTDOWN (multikill_events k n tk ts) = []"
  by (rule of_type_none) (auto dest: multikill_events_types simp: is_multikill_def)

lemma shutdown_of_level [simp]: "of_type SHUTDOWN (level_events cid p l tk ts) = []"
  by (rule of_type_none) (auto dest: level_events_types)

lemma shutdown_of_shutdown [simp]:
  "of_type SHUTDOWN (shutdown_events v k tk ts) = shutdown_events v k tk ts"
  by (rule of_type_all) (auto dest: shutdown_events_types)



section \<open>A death with no killer\<close>


lemma streaks_first_blood [simp]: "streaks (s\<lparr>first_blood_occurred := b\<rparr>) = streaks s"
  by (simp add: streaks_def)


section \<open>The multi-kill window\<close>



lemma multikills_none: "(\<And>e. e \<in> set evs \<Longrightarrow> \<not> is_multikill e) \<Longrightarrow> multikills evs = []"
  unfolding multikills_def by (simp add: filter_none)

lemma multikills_shutdown [simp]: "multikills (shutdown_events v k tk ts) = []"
  by (rule multikills_none) (auto dest: shutdown_events_types simp: is_multikill_def)

lemma kill_types_multikill [simp]: "kill_types (multikill_events k n tk ts) = []"
  by (rule kill_types_none) (auto dest: multikill_events_types multikill_not_kill)

lemma kill_types_shutdown [simp]: "kill_types (shutdown_events v k tk ts) = []"
  by (rule kill_types_none) (auto dest: shutdown_events_types simp: is_kill_event_def)




section \<open>Witnesses on the duel\<close>







lemma kill_window_duel_with [simp]: "kill_window (duel_with n w fb) ''a'' = w"
  by (simp add: kill_window_def duel_with_def tracked_def)





section \<open>Totality of \<open>detect\<close> on complete positions\<close>









lemma positions_ok_first_blood [simp]:
  "positions_ok (s\<lparr>first_blood_occurred := b\<rparr>) = positions_ok s"
  by (simp add: positions_ok_def)

lemma positions_ok_match_started [simp]:
  "positions_ok (s\<lparr>match_started := b\<rparr>) = positions_ok s"
  by (simp add: positions_ok_def)

lemma positions_ok_team_alive_count [simp]:
  "positions_ok (s\<lparr>team_alive_count := b\<rparr>) = positions_ok s"
  by (simp add: positions_ok_def)

lemma positions_ok_previous_state [simp]:
  "positions_ok (s\<lparr>previous_state := b\<rparr>) = positions_ok s"
  by (simp add: positions_ok_def)









lemma map_of_map_entry: "map_of (AList.map_entry k f al) k = map_option f (map_of al k)"
  by (induction al) auto







section \<open>The fan-out of \<open>broadcast_commentary\<close>\<close>








section \<open>Template rendering\<close>

lemma format_scan_KeyError:
  assumes "key_safe m cs"
    and "\<exists>f \<in> set (template_fields m cs). map_of kwargs (field_name f) = None"
  shows "\<exists>k. format_scan pr kwargs m cs = Inl (KeyError k)"
  using assms
proof (induction pr kwargs m cs rule: format_scan.induct)
  case (1 pr kwargs)
  then show ?case by simp
next
  case (2 pr kwargs f)
  then show ?case by simp
next
  case (3 pr kwargs f c cs)
  show ?case
  proof (cases "c = CHR ''}''")
    case False
    with 3 show ?thesis by simp
  next
    case True
    with "3.prems"(1) have np: "\<not> positional (field_name f)"
      and rest: "template_fields None cs = [] \<or> (field_spec f = [] \<and> key_safe None cs)"
      by simp_all
    show ?thesis
    proof (cases "map_of kwargs (field_name f)")
      case None
      with True np show ?thesis by (simp add: format_field_def)
    next
      case (Some v)
      with True "3.prems"(2) have
        later: "\<exists>g \<in> set (template_fields None cs). map_of kwargs (field_name g) = None"
        by auto
      then have "template_fields None cs \<noteq> []" by auto
      with rest have spec: "field_spec f = []" and safe: "key_safe None cs" by simp_all
      have ff: "format_field pr kwargs f = Inr (py_str pr v)"
        using np Some spec by (simp add: format_field_def)
      from "3.IH"(1)[OF True safe later] obtain k where
        "format_scan pr kwargs None cs = Inl (KeyError k)" ..
      with True ff show ?thesis by simp
    qed
  qed
next
  case (4 pr kwargs c)
  then show ?case by simp
next
  case (5 pr kwargs c c' cs)
  then show ?case by (auto split: if_splits)
qed

lemma TEMPLATES_nonempty: "list_all (\<lambda>p. snd p \<noteq> []) TEMPLATES"
  by (simp add: TEMPLATES_def)

lemma TEMPLATES_key_safe: "list_all (key_safe None) (concat (map snd TEMPLATES))"
  unfolding TEMPLATES_def by code_simp

lemma template_of_table:
  assumes "map_of TEMPLATES ty = Some templates"
  shows "templates \<noteq> [] \<and> key_safe None (random_choice r templates)"
proof -
  from assms have mem: "(ty, templates) \<in> set TEMPLATES" by (rule map_of_SomeD)
  with TEMPLATES_nonempty have ne: "templates \<noteq> []"
    by (auto simp: list_all_iff)
  then have "random_choice r templates \<in> set templates"
    by (simp add: random_choice_def)
  with mem have "random_choice r templates \<in> set (concat (map snd TEMPLATES))"
    by force
  with TEMPLATES_key_safe ne show ?thesis
    unfolding list_all_iff by blast
qed

text \<open>
  C9. For every event, every printer of values and every draw of \<open>random.choice\<close>:
  if the table has no template set for the event's type, \<open>generate_template\<close> returns
  \<open>None\<close> and raises nothing; if it has one and the chosen template references a field
  that is absent from the event's data, \<open>generate_template\<close> returns the chosen
  template itself, unmodified.
\<close>

theorem C9_template_degrades:
  "(map_of TEMPLATES (event_type event) = None \<longrightarrow> generate_template pr r event = Inr None)
   \<and> (map_of TEMPLATES (event_type event) = Some templates
        \<and> references (random_choice r templates) name
        \<and> map_of (data event) name = None
      \<longrightarrow> generate_template pr r event = Inr (Some (random_choice r templates)))"
proof (intro conjI impI)
  assume "map_of TEMPLATES (event_type event) = None"
  then show "generate_template pr r event = Inr None"
    by (simp add: generate_template_def)
next
  assume a: "map_of TEMPLATES (event_type event) = Some templates
             \<and> references (random_choice r templates) name
             \<and> map_of (data event) name = None"
  let ?t = "random_choice r templates"
  from a template_of_table have ne: "templates \<noteq> []" and safe: "key_safe None ?t"
    by blast+
  from a have "\<exists>f \<in> set (template_fields None ?t). map_of (data event) (field_name f) = None"
    by (auto simp: references_def)
  from format_scan_KeyError[OF safe this] obtain k where
    "py_format pr ?t (data event) = Inl (KeyError k)"
    unfolding py_format_def by blast
  with a ne show "generate_template pr r event = Inr (Some ?t)"
    by (simp add: generate_template_def Let_def)
qed

lemma no_template_types:
  "map_of TEMPLATES ty = None \<longleftrightarrow>
     ty \<in> {CLOSE_FIGHT, TEAMFIGHT_START, TEAMFIGHT_END, MINION_WAVE, PUSH_ADVANTAGE, BIG_PLAY}"
  by (cases ty) (simp_all add: TEMPLATES_def)

theorem C9_template_witness:
  "map_of TEMPLATES (event_type \<lparr>event_type = BIG_PLAY, timestamp = 3, tick = 4, data = []\<rparr>) = None
   \<and> generate_template strict_printer 7 \<lparr>event_type = BIG_PLAY, timestamp = 3, tick = 4, data = []\<rparr> = Inr None
   \<and> map_of TEMPLATES
       (event_type \<lparr>event_type = MATCH_END, timestamp = 3, tick = 4,
                    data = [(''winner'', PStr ''red'')]\<rparr>)
     = Some [''GG! {winner} wins in {duration:.0f} seconds!'',
             ''What a match! {winner} takes the victory!'',
             ''And it's over! {winner} claims victory!'']
   \<and> references ''GG! {winner} wins in {duration:.0f} seconds!'' ''duration''
   \<and> map_of (data \<lparr>event_type = MATCH_END, timestamp = 3, tick = 4,
                    data = [(''winner'', PStr ''red'')]\<rparr>) ''duration'' = None
   \<and> generate_template strict_printer 0
       \<lparr>event_type = MATCH_END, timestamp = 3, tick = 4, data = [(''winner'', PStr ''red'')]\<rparr>
     = Inr (Some ''GG! {winner} wins in {duration:.0f} seconds!'')"
proof -
  let ?e = "\<lparr>event_type = MATCH_END, timestamp = 3, tick = 4, data = [(''winner'', PStr ''red'')]\<rparr>"
  let ?ts = "[''GG! {winner} wins in {duration:.0f} seconds!'',
              ''What a match! {winner} takes the victory!'',
              ''And it's over! {winner} claims victory!'']"
  have none: "map_of TEMPLATES (event_type \<lparr>event_type = BIG_PLAY, timestamp = 3, tick = 4, data = []\<rparr>) = None"
    by (simp add: TEMPLATES_def)
  have some: "map_of TEMPLATES (event_type ?e) = Some ?ts"
    by (simp add: TEMPLATES_def)
  have choice: "random_choice 0 ?ts = ''GG! {winner} wins in {duration:.0f} seconds!''"
    by (simp add: random_choice_def)
  have ref: "references ''GG! {winner} wins in {duration:.0f} seconds!'' ''duration''"
    by (simp add: references_def field_name_def)
  have absent: "map_of (data ?e) ''duration'' = None"
    by simp
  show ?thesis
    using C9_template_degrades
            [where event = "\<lparr>event_type = BIG_PLAY, timestamp = 3, tick = 4, data = []\<rparr>"
               and pr = strict_printer and r = 7]
          C9_template_degrades
            [where event = ?e and templates = ?ts and r = 0 and name = "''duration''" and pr = strict_printer]
          none some choice ref absent
    by simp
qed

section \<open>The tracked states as a dict of objects\<close>

lemma ids_update:
  "list_all (\<lambda>p. champ_id (snd p) = fst p) al \<Longrightarrow> champ_id c = k \<Longrightarrow>
   list_all (\<lambda>p. champ_id (snd p) = fst p) (AList.update k c al)"
  by (induction al) auto

lemma ids_map_entry:
  "list_all (\<lambda>p. champ_id (snd p) = fst p) al \<Longrightarrow> (\<And>c. champ_id (f c) = champ_id c) \<Longrightarrow>
   list_all (\<lambda>p. champ_id (snd p) = fst p) (AList.map_entry k f al)"
  by (induction al) auto

lemma keys_map_entry: "map fst (AList.map_entry k f al) = map fst al"
  by (induction al) auto

lemma keys_ok_update:
  assumes "keys_ok s" and "champ_id c = k"
    and "champion_states s' = AList.update k c (champion_states s)"
  shows "keys_ok s'"
  using assms by (simp add: keys_ok_def distinct_update ids_update)

lemma keys_ok_mutate:
  assumes "keys_ok s" and "\<And>c. champ_id (f c) = champ_id c"
  shows "keys_ok (mutate cid f s)"
  using assms by (simp add: keys_ok_def mutate_def keys_map_entry ids_map_entry)

lemma keys_ok_lookup:
  assumes "keys_ok s" and "c \<in> snd ` set (champion_states s)"
  shows "map_of (champion_states s) (champ_id c) = Some c"
proof -
  from assms(2) obtain k where mem: "(k, c) \<in> set (champion_states s)" by auto
  with assms(1) have "champ_id c = k" by (auto simp: keys_ok_def list_all_iff)
  with mem assms(1) show ?thesis by (simp add: keys_ok_def)
qed

lemma on_champion_death_keys_ok:
  assumes "on_champion_death s v tk ts = Inr (evs, s')" and "keys_ok s"
  shows "keys_ok s'"
proof -
  from assms(1) obtain r where r: "find_likely_killer s v = Inr r"
    by (auto simp: on_champion_death_def split: sum.splits)
  show ?thesis
  proof (cases r)
    case None
    with r assms show ?thesis
      by (auto simp: on_champion_death_unresolved keys_ok_def)
  next
    case (Some k)
    with r have k: "find_likely_killer s v = Inr (Some k)" by simp
    from assms(1)[unfolded on_champion_death_resolved[OF k]] have
      "champion_states s' = AList.update (champ_id k)
         (k\<lparr>kill_streak := kill_streak k + 1,
            recent_kills := filter (\<lambda>t. ts - t < 10) (recent_kills k @ [ts])\<rparr>)
         (champion_states s)"
      by auto
    then show ?thesis
      by (intro keys_ok_update[OF assms(2)]) simp_all
  qed
qed

lemma process_champion_keys_ok:
  assumes "process_champion s cd tk ts = Inr (evs, s')" and "keys_ok s"
  shows "keys_ok s'"
proof (cases "map_of (champion_states s) (dict_get (d_id cd) '''')")
  case None
  with assms(1) have "champion_states s' =
      AList.update (dict_get (d_id cd) '''')
        (new_champion_state (dict_get (d_id cd) '''') cd) (champion_states s)"
    by (auto simp: process_champion_def Let_def)
  then show ?thesis
    by (intro keys_ok_update[OF assms(2)]) (simp_all add: new_champion_state_def)
next
  case (Some p)
  from assms(1) Some obtain ev1 s1 where
    d: "(if is_alive p \<and> \<not> dict_get (d_is_alive cd) True
         then on_champion_death s p tk ts else Inr ([], s)) = Inr (ev1, s1)"
    and s': "s' = mutate (dict_get (d_id cd) '''')
              (\<lambda>c. c\<lparr>health := dict_get (d_health cd) 0,
                      max_health := dict_get (d_max_health cd) 600,
                      level := dict_get (d_level cd) 1,
                      is_alive := dict_get (d_is_alive cd) True,
                      position := dict_get (d_position cd) [(''x'', 0), (''y'', 0)]\<rparr>)
              (if \<not> is_alive p \<and> dict_get (d_is_alive cd) True
               then mutate (dict_get (d_id cd) '''') (\<lambda>c. c\<lparr>kill_streak := 0\<rparr>) s1 else s1)"
    by (auto simp: process_champion_def Let_def split: sum.splits)
  have "keys_ok s1"
    using d assms(2) on_champion_death_keys_ok[of s p tk ts ev1 s1] by (auto split: if_splits)
  then show ?thesis
    unfolding s' by (auto intro!: keys_ok_mutate)
qed

lemma process_champions_keys_ok:
  "process_champions s cds tk ts = Inr (evs, s') \<Longrightarrow> keys_ok s \<Longrightarrow> keys_ok s'"
proof (induction cds arbitrary: s evs)
  case Nil
  then show ?case by simp
next
  case (Cons cd cds)
  from Cons.prems(1) obtain ev1 s1 ev2 where
    1: "process_champion s cd tk ts = Inr (ev1, s1)" and
    2: "process_champions s1 cds tk ts = Inr (ev2, s')"
    by (auto split: sum.splits)
  show ?case
    by (rule Cons.IH[OF 2 process_champion_keys_ok[OF 1 Cons.prems(2)]])
qed

text \<open>
  The tracked states keep the shape of a dict of objects through every call, and then the
  killer that \<open>_find_likely_killer\<close> returns is the object stored under its own id, and
  is not the victim.
\<close>

theorem tracked_states_are_objects:
  assumes "keys_ok s" and "detect s snap = Inr (evs, s')"
    and "find_likely_killer s victim = Inr (Some killer)"
  shows "keys_ok s'
         \<and> map_of (champion_states s) (champ_id killer) = Some killer
         \<and> team killer \<noteq> team victim
         \<and> resolves_as_killer s victim (champ_id killer)"
proof -
  let ?tk = "dict_get (snap_tick snap) 0" and ?ts = "dict_get (match_time snap) 0"
  let ?s0 = "if \<not> match_started s \<and> status snap = Some ''playing''
             then s\<lparr>match_started := True\<rparr> else s"
  from assms(2) obtain ev1 s1 where
    pc: "process_champions ?s0 (dict_get (champions snap) []) ?tk ?ts = Inr (ev1, s1)"
    and s': "s' = (snd (check_ace s1 ?tk ?ts))\<lparr>previous_state := Some snap\<rparr>"
    by (rule detect_events)
  have "keys_ok ?s0" using assms(1) by (simp add: keys_ok_def)
  then have "keys_ok s1" by (rule process_champions_keys_ok[OF pc])
  then have 1: "keys_ok s'" unfolding s' by (simp add: keys_ok_def check_ace_eq)
  from find_likely_killer_team[OF assms(3)] have
    mem: "killer \<in> snd ` set (champion_states s)" and tm: "team killer = enemy_of (team victim)"
    by simp_all
  have 2: "map_of (champion_states s) (champ_id killer) = Some killer"
    by (rule keys_ok_lookup[OF assms(1) mem])
  show ?thesis
    using 1 2 tm enemy_of_neq[of "team victim"] assms(3)
    by (simp add: resolves_as_killer_def)
qed

lemma keys_ok_new: "keys_ok new_detector"
  by (simp add: keys_ok_def new_detector_def)

theorem tracked_states_witness:
  "keys_ok duel \<and> detect duel duel_kill = Inr ([first_blood_a, ace_event ''blue'' 0 1], duel_after_kill)
   \<and> find_likely_killer duel (tracked ''a'' ''blue'' True) = Inr (Some (tracked ''b'' ''red'' True))
   \<and> keys_ok duel_after_kill
   \<and> map_of (champion_states duel) ''b'' = Some (tracked ''b'' ''red'' True)"
proof -
  have ok: "keys_ok duel"
    by (simp add: keys_ok_def example_defs)
  have step: "detect duel duel_kill = Inr ([first_blood_a, ace_event ''blue'' 0 1], duel_after_kill)"
    using detect_duel_kill by (simp add: example_defs duel_defs)
  have killer: "find_likely_killer duel (tracked ''a'' ''blue'' True)
                = Inr (Some (tracked ''b'' ''red'' True))"
    by (simp add: detector_defs example_defs)
  show ?thesis
    using tracked_states_are_objects [OF ok step killer] ok step killer
    by (simp add: tracked_def)
qed

section \<open>The match boundaries\<close>

lemma champion_event_not_boundary:
  "champion_event e \<Longrightarrow> event_type e \<noteq> MATCH_START \<and> event_type e \<noteq> MATCH_END"
  by (auto simp: champion_event_def is_kill_event_def is_multikill_def)

text \<open>
  What \<open>detect\<close> does at the boundaries of a match, on every call that returns.
  \<open>MATCH_START\<close> is emitted exactly when the flag \<open>match_started\<close> is unset and the
  status is \<open>playing\<close>, and the flag is then set for good: it is edge-triggered.
  \<open>MATCH_END\<close> is emitted exactly when the status is \<open>ended\<close>, whatever the detector
  has seen before, with the snapshot's winner and its \<open>match_time\<close> as the duration.
\<close>

theorem match_boundaries:
  assumes "detect s snap = Inr (evs, s')"
  shows "of_type MATCH_START evs =
           (if \<not> match_started s \<and> status snap = Some ''playing''
            then [\<lparr>event_type = MATCH_START, timestamp = dict_get (match_time snap) 0,
                   tick = dict_get (snap_tick snap) 0, data = []\<rparr>]
            else [])
         \<and> match_started s' = (match_started s \<or> status snap = Some ''playing'')
         \<and> of_type MATCH_END evs =
             (if status snap = Some ''ended''
              then [\<lparr>event_type = MATCH_END, timestamp = dict_get (match_time snap) 0,
                     tick = dict_get (snap_tick snap) 0,
                     data = [(''winner'', case winner snap of None \<Rightarrow> PNone | Some w \<Rightarrow> PStr w),
                             (''duration'', PFloat (dict_get (match_time snap) 0))]\<rparr>]
              else [])"
proof -
  let ?tk = "dict_get (snap_tick snap) 0" and ?ts = "dict_get (match_time snap) 0"
  let ?s0 = "if \<not> match_started s \<and> status snap = Some ''playing''
             then s\<lparr>match_started := True\<rparr> else s"
  from assms obtain ev1 s1 where
    pc: "process_champions ?s0 (dict_get (champions snap) []) ?tk ?ts = Inr (ev1, s1)"
    and evs: "evs = (if \<not> match_started s \<and> status snap = Some ''playing''
            then [\<lparr>event_type = MATCH_START, timestamp = ?ts, tick = ?tk, data = []\<rparr>] else [])
           @ ev1 @ fst (check_ace s1 ?tk ?ts) @ process_structures snap ?tk ?ts
           @ (if status snap = Some ''ended'' then [match_end_event snap ?tk ?ts] else [])"
    and s': "s' = (snd (check_ace s1 ?tk ?ts))\<lparr>previous_state := Some snap\<rparr>"
    by (rule detect_events)
  have a: "of_type t ev1 = []" if "t = MATCH_START \<or> t = MATCH_END" for t
    using that
    by (intro of_type_none) (auto dest!: process_champions_types[OF pc] champion_event_not_boundary)
  have b: "of_type t (fst (check_ace s1 ?tk ?ts)) = []" if "t = MATCH_START \<or> t = MATCH_END" for t
    using that by (intro of_type_none) (auto dest!: check_ace_types)
  have c: "of_type t (process_structures snap ?tk ?ts) = []"
    if "t = MATCH_START \<or> t = MATCH_END" for t
    using that by (intro of_type_none) (auto dest!: process_structures_types)
  have started: "match_started s1 = match_started ?s0"
    using process_champions_frame[OF pc] by simp
  have "match_started s' = match_started s1"
    unfolding s' by (simp add: check_ace_eq)
  with started have m: "match_started s' = (match_started s \<or> status snap = Some ''playing'')"
    by auto
  show ?thesis
    unfolding evs of_type_append using a b c m
    by (simp add: of_type_Cons match_end_event_def of_type_def)
qed

lemma detect_ended:
  "detect new_detector (ended 300) =
     Inr ([match_end_event (ended 300) 0 300], new_detector\<lparr>previous_state := Some (ended 300)\<rparr>)"
  by (simp add: detector_defs example_defs)

theorem match_boundaries_witness:
  "detect new_detector (ended 300) =
     Inr ([match_end_event (ended 300) 0 300], new_detector\<lparr>previous_state := Some (ended 300)\<rparr>)
   \<and> of_type MATCH_END [match_end_event (ended 300) 0 300] = [match_end_event (ended 300) 0 300]
   \<and> of_type MATCH_START [match_end_event (ended 300) 0 300] = []"
  using match_boundaries [OF detect_ended] detect_ended
  by (simp add: match_end_event_def ended_def)

section \<open>The states a run reaches\<close>

lemma detect_counts_stored:
  assumes "detect s snap = Inr (evs, s')"
  shows "counts_stored s'"
proof -
  from assms obtain ev1 s1 where
    "s' = (snd (check_ace s1 (dict_get (snap_tick snap) 0) (dict_get (match_time snap) 0)))
            \<lparr>previous_state := Some snap\<rparr>"
    by (rule detect_events)
  then show ?thesis
    by (simp add: counts_stored_def check_ace_eq update_conv')
qed

lemma detect_run_reaches:
  "detect_run s snaps = Inr (evss, s') \<Longrightarrow> counts_stored s \<Longrightarrow> keys_ok s \<Longrightarrow>
   counts_stored s' \<and> keys_ok s'"
proof (induction snaps arbitrary: s evss)
  case Nil
  then show ?case by simp
next
  case (Cons snap snaps)
  from Cons.prems(1) obtain ev s1 evs where
    1: "detect s snap = Inr (ev, s1)" and
    2: "detect_run s1 snaps = Inr (evs, s')"
    by (auto split: sum.splits)
  have "keys_ok s1"
  proof -
    let ?s0 = "if \<not> match_started s \<and> status snap = Some ''playing''
               then s\<lparr>match_started := True\<rparr> else s"
    from 1 obtain ev1 s2 where
      pc: "process_champions ?s0 (dict_get (champions snap) []) (dict_get (snap_tick snap) 0)
             (dict_get (match_time snap) 0) = Inr (ev1, s2)"
      and s1: "s1 = (snd (check_ace s2 (dict_get (snap_tick snap) 0)
                       (dict_get (match_time snap) 0)))\<lparr>previous_state := Some snap\<rparr>"
      by (rule detect_events)
    have "keys_ok ?s0" using Cons.prems(3) by (simp add: keys_ok_def)
    then have "keys_ok s2" by (rule process_champions_keys_ok[OF pc])
    then show ?thesis unfolding s1 by (simp add: keys_ok_def check_ace_eq)
  qed
  with Cons.IH[OF 2 detect_counts_stored[OF 1]] show ?case by simp
qed

lemma run_from_new_detector:
  "detect_run new_detector snaps = Inr (evss, s') \<Longrightarrow> counts_stored s' \<and> keys_ok s'"
  by (rule detect_run_reaches[OF _ counts_stored_new keys_ok_new])

section \<open>Only a kill changes the killer's window\<close>

lemma kill_window_mutate:
  assumes "\<And>c. recent_kills (f c) = recent_kills c"
  shows "kill_window (mutate k f s) cid = kill_window s cid"
proof (cases "k = cid")
  case True
  then show ?thesis
    by (cases "map_of (champion_states s) cid")
       (simp_all add: kill_window_def mutate_def map_of_map_entry assms)
next
  case False
  have "map_of (AList.map_entry k f al) cid = map_of al cid" for al
    using False by (induction al) auto
  then show ?thesis by (simp add: kill_window_def mutate_def)
qed

text \<open>
  A champion record changes the window of the champion \<open>cid\<close> only if it is a death
  edge at which \<open>cid\<close> resolves as the killer.
\<close>

lemma kill_window_frame:
  assumes "process_champion s cd tk ts = Inr (evs, s')" and "keys_ok s"
    and "kill_window s' cid \<noteq> kill_window s cid"
  shows "death_edge s cd \<and>
         (\<exists>victim. map_of (champion_states s) (dict_get (d_id cd) '''') = Some victim
                    \<and> resolves_as_killer s victim cid)"
proof (cases "map_of (champion_states s) (dict_get (d_id cd) '''')")
  case None
  with assms(1) have "champion_states s' =
      AList.update (dict_get (d_id cd) '''')
        (new_champion_state (dict_get (d_id cd) '''') cd) (champion_states s)"
    by (auto simp: process_champion_def Let_def)
  with None have "kill_window s' cid = kill_window s cid"
    by (cases "dict_get (d_id cd) '''' = cid")
       (simp_all add: kill_window_def update_conv' new_champion_state_def)
  with assms(3) show ?thesis by simp
next
  case (Some p)
  let ?id = "dict_get (d_id cd) ''''"
  from assms(1) Some obtain ev1 s1 where
    d: "(if is_alive p \<and> \<not> dict_get (d_is_alive cd) True
         then on_champion_death s p tk ts else Inr ([], s)) = Inr (ev1, s1)"
    and s': "s' = mutate ?id
              (\<lambda>c. c\<lparr>health := dict_get (d_health cd) 0,
                      max_health := dict_get (d_max_health cd) 600,
                      level := dict_get (d_level cd) 1,
                      is_alive := dict_get (d_is_alive cd) True,
                      position := dict_get (d_position cd) [(''x'', 0), (''y'', 0)]\<rparr>)
              (if \<not> is_alive p \<and> dict_get (d_is_alive cd) True
               then mutate ?id (\<lambda>c. c\<lparr>kill_streak := 0\<rparr>) s1 else s1)"
    by (auto simp: process_champion_def Let_def split: sum.splits)
  have "kill_window s' cid = kill_window s1 cid"
    unfolding s' by (simp add: kill_window_mutate)
  with assms(3) have changed: "kill_window s1 cid \<noteq> kill_window s cid" by simp
  with d have edge: "is_alive p \<and> \<not> dict_get (d_is_alive cd) True"
    and death: "on_champion_death s p tk ts = Inr (ev1, s1)"
    by (auto split: if_splits)
  from death obtain r where r: "find_likely_killer s p = Inr r"
    by (auto simp: on_champion_death_def split: sum.splits)
  have "resolves_as_killer s p cid"
  proof (cases r)
    case None
    with r death have "champion_states s1 = champion_states s"
      by (auto simp: on_champion_death_unresolved)
    with changed show ?thesis by (simp add: kill_window_def)
  next
    case (Some k)
    with r have k: "find_likely_killer s p = Inr (Some k)" by simp
    from death[unfolded on_champion_death_resolved[OF k]] have
      cs: "champion_states s1 = AList.update (champ_id k)
         (k\<lparr>kill_streak := kill_streak k + 1,
            recent_kills := filter (\<lambda>t. ts - t < 10) (recent_kills k @ [ts])\<rparr>)
         (champion_states s)"
      by auto
    have "champ_id k = cid"
    proof (rule ccontr)
      assume "champ_id k \<noteq> cid"
      then have "kill_window s1 cid = kill_window s cid"
        by (simp add: kill_window_def cs update_conv')
      with changed show False by simp
    qed
    moreover have "map_of (champion_states s) (champ_id k) = Some k"
      using find_likely_killer_team[OF k] keys_ok_lookup[OF assms(2)] by blast
    ultimately show ?thesis
      using k by (simp add: resolves_as_killer_def)
  qed
  with Some edge show ?thesis
    by (auto simp: death_edge_def)
qed

end
